theory Spec2Isabelle
  imports Complex_Main
begin

section \<open>Vector math primitives\<close>

text \<open>
  The numeric core works on JavaScript numbers. Except in the last section they are
  modelled as reals: arithmetic is exact, and the sentinels \<^verbatim>\<open>Infinity\<close> and \<^verbatim>\<open>-Infinity\<close>
  that the source uses to start a running minimum or maximum are the value \<open>None\<close> of an
  option. Indices, counters and cluster labels are integers. A vector is a list of reals,
  a vector collection a list of vectors.

  A read past the end of an array gives \<^verbatim>\<open>undefined\<close> in the source, and NaN once it enters
  arithmetic. The model has no such number: the theorems are stated for collections whose
  vectors share one dimension (\<open>uniform\<close>) and for label arrays as long as the collection,
  where no such read happens.
\<close>

type_synonym vec = "real list"

datatype error =
  DimensionMismatch \<comment> \<open>\<^verbatim>\<open>Error("Vectors must have the same dimensionality")\<close>\<close>
| TypeError \<comment> \<open>a property read on \<^verbatim>\<open>undefined\<close>\<close>

text \<open>A collection in which every vector has dimension \<open>d\<close>.\<close>

definition uniform :: "nat \<Rightarrow> vec list \<Rightarrow> bool" where
  "uniform d vectors = list_all (\<lambda>v. length v = d) vectors"

text \<open>The Euclidean norm, as the specification words it (not taken from the code).\<close>

definition vnorm :: "vec \<Rightarrow> real" where
  "vnorm v = sqrt (\<Sum>x\<leftarrow>v. x * x)"

text \<open>
  \<^verbatim>\<open>cosineSimilarityKernel\<close>: the length check, one loop that accumulates the dot product
  and the two squared norms, the zero test, the quotient.
\<close>

definition cosineLoop :: "vec \<Rightarrow> vec \<Rightarrow> real \<times> real \<times> real" where
  "cosineLoop vecA vecB =
     fold (\<lambda>i (dotProduct, normA, normB).
             (dotProduct + vecA ! i * vecB ! i,
              normA + vecA ! i * vecA ! i,
              normB + vecB ! i * vecB ! i))
          [0..<length vecA] (0, 0, 0)"

definition cosineSimilarityKernel :: "vec \<Rightarrow> vec \<Rightarrow> error + real" where
  "cosineSimilarityKernel vecA vecB =
     (if length vecA \<noteq> length vecB then Inl DimensionMismatch
      else case cosineLoop vecA vecB of (dotProduct, normA, normB) \<Rightarrow>
        if normA = 0 \<or> normB = 0 then Inr 0
        else Inr (dotProduct / (sqrt normA * sqrt normB)))"

text \<open>
  \<^verbatim>\<open>euclideanDistance\<close> runs over the indices of its first argument and does not compare
  the lengths.
\<close>

definition euclideanDistance :: "vec \<Rightarrow> vec \<Rightarrow> real" where
  "euclideanDistance vecA vecB =
     sqrt (fold (\<lambda>i sum. let diff = vecA ! i - vecB ! i in sum + diff * diff)
                [0..<length vecA] 0)"

subsection \<open>Properties of the cosine kernel\<close>


lemma cosineLoop_fold:
  "fold (\<lambda>i (dotProduct, normA, normB).
             (dotProduct + a ! i * b ! i, normA + a ! i * a ! i, normB + b ! i * b ! i))
        [0..<n] (d, na, nb :: real)
   = (d + (\<Sum>i<n. a ! i * b ! i), na + (\<Sum>i<n. a ! i * a ! i), nb + (\<Sum>i<n. b ! i * b ! i))"
  by (induction n) (simp_all add: algebra_simps)

lemma cosineLoop_eq:
  "cosineLoop a b = ((\<Sum>i<length a. a ! i * b ! i), (\<Sum>i<length a. a ! i * a ! i), (\<Sum>i<length a. b ! i * b ! i))"
  unfolding cosineLoop_def by (simp add: cosineLoop_fold)

lemma sum_squares_nth: "(\<Sum>i<length v. v ! i * v ! i) = (\<Sum>x\<leftarrow>v. x * (x::real))"
proof -
  have "(\<Sum>x\<leftarrow>v. x * x) = (\<Sum>i = 0..<length v. v ! i * v ! i)"
    by (simp add: sum_list_sum_nth)
  then show ?thesis by (simp add: atLeast0LessThan)
qed


lemma vnorm_zero_iff: "vnorm v = 0 \<longleftrightarrow> (\<Sum>x\<leftarrow>v. x * x) = 0"
  by (simp add: vnorm_def)

lemma cosine_equal_length:
  "length a = length b \<Longrightarrow>
   cosineSimilarityKernel a b =
     (if vnorm a = 0 \<or> vnorm b = 0 then Inr 0
      else Inr ((\<Sum>i<length a. a ! i * b ! i) / (vnorm a * vnorm b)))"
proof -
  assume len: "length a = length b"
  have na: "(\<Sum>i<length a. a ! i * a ! i) = (\<Sum>x\<leftarrow>a. x * x)"
    by (rule sum_squares_nth)
  have nb: "(\<Sum>i<length a. b ! i * b ! i) = (\<Sum>x\<leftarrow>b. x * x)"
    unfolding len by (rule sum_squares_nth)
  have loop: "cosineLoop a b =
      ((\<Sum>i<length a. a ! i * b ! i), (\<Sum>x\<leftarrow>a. x * x), (\<Sum>x\<leftarrow>b. x * x))"
    unfolding cosineLoop_eq na nb ..
  show ?thesis
    unfolding cosineSimilarityKernel_def loop using len by (simp add: vnorm_def)
qed

text \<open>
  C5: \<^verbatim>\<open>cosineSimilarityKernel\<close> raises its dimensionality error exactly when the two
  vectors differ in length; on vectors of equal length it returns a number, and that
  number is 0 whenever one of the vectors has norm zero.
\<close>

theorem cosineSimilarity_error_iff:
  "(cosineSimilarityKernel a b = Inl DimensionMismatch \<longleftrightarrow> length a \<noteq> length b) \<and>
   (length a = length b \<longrightarrow> (\<exists>r. cosineSimilarityKernel a b = Inr r)) \<and>
   (length a = length b \<and> (vnorm a = 0 \<or> vnorm b = 0) \<longrightarrow> cosineSimilarityKernel a b = Inr 0)"
proof (cases "length a = length b")
  case True
  then show ?thesis by (simp add: cosine_equal_length)
next
  case False
  then show ?thesis by (simp add: cosineSimilarityKernel_def)
qed

theorem cosineSimilarity_error_iff_witness:
  "cosineSimilarityKernel [0, 0] [1, 2] = Inr 0 \<and>
   cosineSimilarityKernel [1] [1, 2] = Inl DimensionMismatch"
  using cosineSimilarity_error_iff [of "[0, 0]" "[1, 2]"]
    cosineSimilarity_error_iff [of "[1]" "[1, 2]"]
  by (simp add: vnorm_def)

section \<open>Kernel matrix builder\<close>

text \<open>The assignment \<^verbatim>\<open>matrix[i][j] = v\<close> on an array of rows.\<close>

definition setCell :: "real list list \<Rightarrow> nat \<Rightarrow> nat \<Rightarrow> real \<Rightarrow> real list list" where
  "setCell matrix i j v = matrix[i := (matrix ! i)[j := v]]"

text \<open>
  One pass of the inner loop body of \<^verbatim>\<open>computeKernelMatrix\<close>. The exception of
  \<^verbatim>\<open>cosineSimilarityKernel\<close> is not caught, so it ends the whole computation.
\<close>

definition kernelCell :: "vec list \<Rightarrow> nat \<Rightarrow> nat \<Rightarrow> real list list \<Rightarrow> error + real list list" where
  "kernelCell vectors i j matrix =
     (if i = j then Inr (setCell matrix i j 1)
      else case cosineSimilarityKernel (vectors ! i) (vectors ! j) of
             Inl e \<Rightarrow> Inl e
           | Inr sim \<Rightarrow> Inr (setCell (setCell matrix i j sim) j i sim))"

definition kernelRow :: "vec list \<Rightarrow> nat \<Rightarrow> error + real list list \<Rightarrow> error + real list list" where
  "kernelRow vectors i acc =
     fold (\<lambda>j acc. case acc of Inl e \<Rightarrow> Inl e | Inr matrix \<Rightarrow> kernelCell vectors i j matrix)
          [i..<length vectors] acc"

definition computeKernelMatrix :: "vec list \<Rightarrow> error + real list list" where
  "computeKernelMatrix vectors =
     (let n = length vectors;
          matrix = replicate n (replicate n 0)
      in fold (kernelRow vectors) [0..<n] (Inr matrix))"

subsection \<open>The loop invariant of the matrix construction\<close>




lemma setCell_length [simp]: "length (setCell m i j v) = length m"
  by (simp add: setCell_def)















text \<open>
  The hypothesis on the dimensions is needed: the exception of the kernel leaves
  \<^verbatim>\<open>computeKernelMatrix\<close> when two vectors differ in length.
\<close>

lemma computeKernelMatrix_ragged: "computeKernelMatrix [[1], [1, 2]] = Inl DimensionMismatch"
proof -
  have i: "[0..<2] = [0, 1::nat]" "[1..<2] = [1::nat]" by code_simp+
  have r: "replicate 2 (replicate 2 (0::real)) = [[0, 0], [0, 0]]" by code_simp
  have l: "length [[1], [1, 2::real]] = 2" by simp
  show ?thesis
    unfolding computeKernelMatrix_def Let_def l i r
    by (simp add: kernelRow_def i kernelCell_def setCell_def cosineSimilarityKernel_def)
qed

section \<open>Density clusterer (DBSCAN)\<close>

text \<open>
  The label array of the source holds 0 for a point not yet seen, \<open>-1\<close> for noise and the
  positive number of its cluster otherwise. \<^verbatim>\<open>getNeighbors\<close> is the closure of the
  source: a brute-force scan of all other points.
\<close>

definition getNeighbors :: "vec list \<Rightarrow> real \<Rightarrow> nat \<Rightarrow> nat list" where
  "getNeighbors vectors epsilon idx =
     filter (\<lambda>i. i \<noteq> idx \<and> euclideanDistance (vectors ! idx) (vectors ! i) \<le> epsilon)
            [0..<length vectors]"

text \<open>
  \<^verbatim>\<open>for (const nn of neighborNeighbors) if (!seedSet.includes(nn)) seedSet.push(nn)\<close>
\<close>

definition pushNew :: "nat list \<Rightarrow> nat list \<Rightarrow> nat list" where
  "pushNew seedSet neighborNeighbors =
     fold (\<lambda>nn seedSet. if nn \<in> set seedSet then seedSet else seedSet @ [nn])
          neighborNeighbors seedSet"

lemma set_pushNew: "set (pushNew seedSet nns) = set seedSet \<union> set nns"
  unfolding pushNew_def by (induction nns arbitrary: seedSet) auto

lemma pushNew_same: "set nns \<subseteq> set seedSet \<Longrightarrow> pushNew seedSet nns = seedSet"
  unfolding pushNew_def by (induction nns arbitrary: seedSet) auto

lemma length_pushNew: "length seedSet \<le> length (pushNew seedSet nns)"
  unfolding pushNew_def
proof (induction nns arbitrary: seedSet)
  case Nil
  show ?case by simp
next
  case (Cons nn nns)
  show ?case using Cons [of seedSet] Cons [of "seedSet @ [nn]"] by auto
qed

lemma getNeighbors_bound: "set (getNeighbors vectors epsilon idx) \<subseteq> {..<length vectors}"
  by (auto simp: getNeighbors_def)

text \<open>
  The seed set only ever receives indices below \<open>n\<close> that it does not hold yet, so the
  number of indices it lacks, and then the number of seeds still to visit, decrease.
\<close>

lemma pushNew_measure:
  assumes "set nns \<subseteq> {..<n}" and "j < length seedSet"
  shows "card ({..<n} - set (pushNew seedSet nns)) < card ({..<n} - set seedSet) \<or>
         (card ({..<n} - set (pushNew seedSet nns)) = card ({..<n} - set seedSet) \<and>
          length (pushNew seedSet nns) - Suc j < length seedSet - j)"
proof (cases "set nns \<subseteq> set seedSet")
  case True
  then show ?thesis using assms(2) by (simp add: pushNew_same)
next
  case False
  then obtain x where x: "x \<in> set nns" "x \<notin> set seedSet" by blast
  then have "x \<in> {..<n} - set seedSet" "x \<notin> {..<n} - set (pushNew seedSet nns)"
    using assms(1) by (auto simp: set_pushNew)
  moreover have "{..<n} - set (pushNew seedSet nns) \<subseteq> {..<n} - set seedSet"
    by (auto simp: set_pushNew)
  ultimately have "{..<n} - set (pushNew seedSet nns) \<subset> {..<n} - set seedSet" by blast
  then show ?thesis by (simp add: psubset_card_mono)
qed

function expandCluster ::
  "vec list \<Rightarrow> real \<Rightarrow> real \<Rightarrow> int \<Rightarrow> int list \<Rightarrow> nat list \<Rightarrow> nat \<Rightarrow> int list" where
  "expandCluster vectors epsilon minPts clusterId labels seedSet j =
     (if j < length seedSet then
        let neighborIdx = seedSet ! j;
            labels1 = (if labels ! neighborIdx = -1 then labels[neighborIdx := clusterId]
                       else labels)
        in if labels1 ! neighborIdx \<noteq> 0
           then expandCluster vectors epsilon minPts clusterId labels1 seedSet (j + 1)
           else
             let labels2 = labels1[neighborIdx := clusterId];
                 neighborNeighbors = getNeighbors vectors epsilon neighborIdx;
                 seedSet' = (if real (length neighborNeighbors) + 1 \<ge> minPts
                             then pushNew seedSet neighborNeighbors else seedSet)
             in expandCluster vectors epsilon minPts clusterId labels2 seedSet' (j + 1)
      else labels)"
  by pat_completeness auto
termination
proof (relation "measures [\<lambda>(vectors, epsilon, minPts, clusterId, labels, seedSet, j).
                              card ({..<length vectors} - set seedSet),
                           \<lambda>(vectors, epsilon, minPts, clusterId, labels, seedSet, j).
                              length seedSet - j]", goal_cases)
  case 1
  show ?case by simp
next
  case (2 vectors epsilon minPts clusterId labels seedSet j)
  then show ?case by auto
next
  case (3 vectors epsilon minPts clusterId labels seedSet j neighborIdx labels1 labels2 nns seedSet')
  show ?case
  proof (cases "seedSet' = seedSet")
    case True
    then show ?thesis using 3(1) by auto
  next
    case False
    then have "seedSet' = pushNew seedSet (getNeighbors vectors epsilon (seedSet ! j))"
      using 3 by (auto split: if_splits)
    then show ?thesis
      using pushNew_measure [OF getNeighbors_bound 3(1), of vectors epsilon "seedSet ! j"]
      by auto
  qed
qed

declare expandCluster.simps [simp del]

definition dbscanStep ::
  "vec list \<Rightarrow> real \<Rightarrow> real \<Rightarrow> nat \<Rightarrow> int list \<times> int \<Rightarrow> int list \<times> int" where
  "dbscanStep vectors epsilon minPts i state =
     (case state of (labels, clusterId) \<Rightarrow>
        if labels ! i \<noteq> 0 then (labels, clusterId)
        else
          let neighbors = getNeighbors vectors epsilon i
          in if real (length neighbors) + 1 < minPts then (labels[i := -1], clusterId)
             else
               let clusterId' = clusterId + 1;
                   labels' = labels[i := clusterId']
               in (expandCluster vectors epsilon minPts clusterId' labels' neighbors 0,
                   clusterId'))"

text \<open>The main loop, before the labels are shifted: the raw labels and the cluster counter.\<close>

definition dbscanRaw :: "vec list \<Rightarrow> real \<Rightarrow> real \<Rightarrow> int list \<times> int" where
  "dbscanRaw vectors epsilon minPts =
     fold (dbscanStep vectors epsilon minPts) [0..<length vectors]
          (replicate (length vectors) 0, 0)"

definition dbscan :: "vec list \<Rightarrow> real \<Rightarrow> real \<Rightarrow> int list" where
  "dbscan vectors epsilon minPts =
     map (\<lambda>l. if l = -1 then -1 else l - 1) (fst (dbscanRaw vectors epsilon minPts))"

subsection \<open>What the expansion of a cluster changes\<close>

text \<open>
  \<open>relabel c L L'\<close>: \<open>L'\<close> is \<open>L\<close> with some entries that were 0 (unseen) or \<open>-1\<close> (noise)
  set to the cluster number \<open>c\<close>; every other entry is as it was.
\<close>

definition relabel :: "int \<Rightarrow> int list \<Rightarrow> int list \<Rightarrow> bool" where
  "relabel c L L' =
     (length L' = length L \<and>
      list_all (\<lambda>p. L' ! p = L ! p \<or> (L' ! p = c \<and> (L ! p = 0 \<or> L ! p = -1))) [0..<length L])"

lemma relabelI:
  "length L' = length L \<Longrightarrow>
   (\<And>p. p < length L \<Longrightarrow> L' ! p = L ! p \<or> (L' ! p = c \<and> (L ! p = 0 \<or> L ! p = -1))) \<Longrightarrow>
   relabel c L L'"
  by (simp add: relabel_def list_all_iff)

lemma relabelD:
  "relabel c L L' \<Longrightarrow> p < length L \<Longrightarrow>
   L' ! p = L ! p \<or> (L' ! p = c \<and> (L ! p = 0 \<or> L ! p = -1))"
  by (simp add: relabel_def list_all_iff)

lemma relabel_length: "relabel c L L' \<Longrightarrow> length L' = length L"
  by (simp add: relabel_def)

lemma relabel_refl: "relabel c L L"
  by (rule relabelI) simp_all

lemma relabel_trans:
  assumes "relabel c L1 L2" and "relabel c L2 L3"
  shows "relabel c L1 L3"
proof (rule relabelI)
  show "length L3 = length L1" using assms by (simp add: relabel_length)
next
  fix p assume p: "p < length L1"
  then have "p < length L2" using assms(1) by (simp add: relabel_length)
  from relabelD [OF assms(1) p] relabelD [OF assms(2) this]
  show "L3 ! p = L1 ! p \<or> (L3 ! p = c \<and> (L1 ! p = 0 \<or> L1 ! p = -1))" by auto
qed

lemma relabel_update:
  assumes "L ! q = 0 \<or> L ! q = -1"
  shows "relabel c L (L[q := c])"
proof (rule relabelI)
  show "length (L[q := c]) = length L" by simp
next
  fix p assume "p < length L"
  then show "L[q := c] ! p = L ! p \<or> (L[q := c] ! p = c \<and> (L ! p = 0 \<or> L ! p = -1))"
    using assms by (cases "p = q") simp_all
qed

lemma expandCluster_relabel:
  "relabel clusterId labels (expandCluster vectors epsilon minPts clusterId labels seedSet j)"
proof (induction vectors epsilon minPts clusterId labels seedSet j rule: expandCluster.induct)
  case (1 vectors epsilon minPts clusterId labels seedSet j)
  show ?case
  proof (cases "j < length seedSet")
    case False
    then show ?thesis by (simp add: expandCluster.simps relabel_refl)
  next
    case True
    let ?neighborIdx = "seedSet ! j"
    let ?labels1 = "if labels ! ?neighborIdx = -1 then labels[?neighborIdx := clusterId] else labels"
    have r1: "relabel clusterId labels ?labels1"
      by (simp add: relabel_refl relabel_update)
    show ?thesis
    proof (cases "?labels1 ! ?neighborIdx \<noteq> 0")
      case nz: True
      have "relabel clusterId ?labels1
              (expandCluster vectors epsilon minPts clusterId ?labels1 seedSet (j + 1))"
        using "1.IH"(1) [OF True refl refl nz] .
      moreover have "expandCluster vectors epsilon minPts clusterId labels seedSet j =
                     expandCluster vectors epsilon minPts clusterId ?labels1 seedSet (j + 1)"
        using True nz
        by (subst expandCluster.simps) (simp only: Let_def if_True not_False_eq_True simp_thms)
      ultimately show ?thesis using r1 relabel_trans by metis
    next
      case z: False
      let ?labels2 = "?labels1[?neighborIdx := clusterId]"
      let ?neighborNeighbors = "getNeighbors vectors epsilon ?neighborIdx"
      let ?seedSet' = "if real (length ?neighborNeighbors) + 1 \<ge> minPts
                     then pushNew seedSet ?neighborNeighbors else seedSet"
      have r2: "relabel clusterId ?labels1 ?labels2"
        using z by (simp add: relabel_update)
      have "relabel clusterId ?labels2
              (expandCluster vectors epsilon minPts clusterId ?labels2 ?seedSet' (j + 1))"
        using "1.IH"(2) [OF True refl refl z refl refl refl] .
      moreover have "expandCluster vectors epsilon minPts clusterId labels seedSet j =
                     expandCluster vectors epsilon minPts clusterId ?labels2 ?seedSet' (j + 1)"
        using True z
        by (subst expandCluster.simps) (simp only: Let_def if_True if_False simp_thms)
      ultimately show ?thesis using r1 r2 relabel_trans by metis
    qed
  qed
qed

subsection \<open>The invariant of the main loop\<close>

text \<open>
  After the points below \<open>k\<close> have been visited: every raw label is \<open>-1\<close>, 0 or a cluster
  number between 1 and the counter; every cluster number up to the counter labels some
  point; and no visited point is still unseen (0).
\<close>

definition dbscanInv :: "nat \<Rightarrow> nat \<Rightarrow> int list \<times> int \<Rightarrow> bool" where
  "dbscanInv n k state =
     (case state of (labels, clusterId) \<Rightarrow>
        length labels = n \<and> 0 \<le> clusterId \<and>
        (\<forall>p<n. labels ! p = -1 \<or> (0 \<le> labels ! p \<and> labels ! p \<le> clusterId)) \<and>
        (\<forall>c. 1 \<le> c \<and> c \<le> clusterId \<longrightarrow> (\<exists>p<n. labels ! p = c)) \<and>
        (\<forall>p<k. labels ! p \<noteq> 0))"

lemma dbscanInv_init: "dbscanInv n 0 (replicate n 0, 0)"
  by (simp add: dbscanInv_def)

lemma dbscanInv_cluster:
  assumes inv: "dbscanInv n k (labels, clusterId)" and k: "k < n" and z: "labels ! k = 0"
    and r: "relabel (clusterId + 1) (labels[k := clusterId + 1]) L"
  shows "dbscanInv n (Suc k) (L, clusterId + 1)"
proof -
  let ?c = "clusterId + 1"
  let ?L1 = "labels[k := ?c]"
  from inv have len: "length labels = n" and c0: "0 \<le> clusterId"
    and rng: "\<And>p. p < n \<Longrightarrow> labels ! p = -1 \<or> (0 \<le> labels ! p \<and> labels ! p \<le> clusterId)"
    and occ: "\<And>c. 1 \<le> c \<Longrightarrow> c \<le> clusterId \<Longrightarrow> \<exists>p<n. labels ! p = c"
    and seen: "\<And>p. p < k \<Longrightarrow> labels ! p \<noteq> 0"
    by (auto simp: dbscanInv_def)
  have lenL: "length L = n" using r len by (simp add: relabel_length)
  have step: "L ! p = ?L1 ! p \<or> (L ! p = ?c \<and> (?L1 ! p = 0 \<or> ?L1 ! p = -1))" if "p < n" for p
    using relabelD [OF r, of p] that len by simp
  have L1k: "?L1 ! k = ?c" using k len by simp
  have L1o: "?L1 ! p = labels ! p" if "p \<noteq> k" for p using that by simp
  have Lk: "L ! k = ?c" using step [OF k] L1k by auto
  have rng': "L ! p = -1 \<or> (0 \<le> L ! p \<and> L ! p \<le> ?c)" if "p < n" for p
  proof (cases "p = k")
    case True
    then show ?thesis using Lk c0 by simp
  next
    case False
    then show ?thesis using step [OF that] rng [OF that] L1o [OF False] c0 by auto
  qed
  have occ': "\<exists>p<n. L ! p = c" if "1 \<le> c" "c \<le> ?c" for c
  proof (cases "c = ?c")
    case True
    then show ?thesis using Lk k by blast
  next
    case False
    then have "c \<le> clusterId" using that by simp
    from occ [OF that(1) this] obtain p where p: "p < n" "labels ! p = c" by blast
    then have "p \<noteq> k" using z that(1) by auto
    then have "?L1 ! p = c" using p by simp
    then have "L ! p = c" using step [OF p(1)] that(1) by auto
    then show ?thesis using p(1) by blast
  qed
  have seen': "L ! p \<noteq> 0" if "p < Suc k" for p
  proof (cases "p = k")
    case True
    then show ?thesis using Lk c0 by simp
  next
    case False
    then have pk: "p < k" using that by simp
    then have "p < n" using k by simp
    from step [OF this] seen [OF pk] L1o [OF False] c0 show ?thesis by auto
  qed
  show ?thesis
    unfolding dbscanInv_def using lenL c0 rng' occ' seen' by simp
qed

lemma dbscanInv_noise:
  assumes inv: "dbscanInv n k (labels, clusterId)" and k: "k < n" and z: "labels ! k = 0"
  shows "dbscanInv n (Suc k) (labels[k := -1], clusterId)"
proof -
  from inv have len: "length labels = n" and c0: "0 \<le> clusterId"
    and rng: "\<And>p. p < n \<Longrightarrow> labels ! p = -1 \<or> (0 \<le> labels ! p \<and> labels ! p \<le> clusterId)"
    and occ: "\<And>c. 1 \<le> c \<Longrightarrow> c \<le> clusterId \<Longrightarrow> \<exists>p<n. labels ! p = c"
    and seen: "\<And>p. p < k \<Longrightarrow> labels ! p \<noteq> 0"
    by (auto simp: dbscanInv_def)
  have rng': "labels[k := -1] ! p = -1 \<or> (0 \<le> labels[k := -1] ! p \<and> labels[k := -1] ! p \<le> clusterId)"
    if "p < n" for p
    using rng [OF that] that len by (cases "p = k") simp_all
  have occ': "\<exists>p<n. labels[k := -1] ! p = c" if "1 \<le> c" "c \<le> clusterId" for c
  proof -
    from occ [OF that] obtain p where p: "p < n" "labels ! p = c" by blast
    then have "p \<noteq> k" using z that(1) by auto
    then show ?thesis using p by auto
  qed
  have seen': "labels[k := -1] ! p \<noteq> 0" if "p < Suc k" for p
    using seen [of p] that k len by (cases "p = k") simp_all
  show ?thesis
    unfolding dbscanInv_def using len c0 rng' occ' seen' by simp
qed

lemma dbscanInv_skip:
  assumes inv: "dbscanInv n k (labels, clusterId)" and nz: "labels ! k \<noteq> 0"
  shows "dbscanInv n (Suc k) (labels, clusterId)"
  using assms by (auto simp: dbscanInv_def less_Suc_eq)

lemma dbscanStep_inv:
  assumes inv: "dbscanInv (length vectors) k state" and k: "k < length vectors"
  shows "dbscanInv (length vectors) (Suc k) (dbscanStep vectors epsilon minPts k state)"
proof -
  obtain labels clusterId where st: "state = (labels, clusterId)" by (cases state)
  show ?thesis
  proof (cases "labels ! k \<noteq> 0")
    case True
    then show ?thesis using inv st by (simp add: dbscanStep_def dbscanInv_skip)
  next
    case False
    then have z: "labels ! k = 0" by simp
    show ?thesis
    proof (cases "real (length (getNeighbors vectors epsilon k)) + 1 < minPts")
      case True
      then show ?thesis
        using inv st z k by (simp add: dbscanStep_def dbscanInv_noise)
    next
      case False
      have "dbscanInv (length vectors) (Suc k)
              (expandCluster vectors epsilon minPts (clusterId + 1) (labels[k := clusterId + 1])
                 (getNeighbors vectors epsilon k) 0, clusterId + 1)"
        using inv k z expandCluster_relabel unfolding st by (rule dbscanInv_cluster)
      then show ?thesis using False z st by (simp add: dbscanStep_def Let_def)
    qed
  qed
qed

lemma dbscanRaw_partial:
  "k \<le> length vectors \<Longrightarrow>
   dbscanInv (length vectors) k
     (fold (dbscanStep vectors epsilon minPts) [0..<k] (replicate (length vectors) 0, 0))"
proof (induction k)
  case 0
  show ?case by (simp add: dbscanInv_init)
next
  case (Suc k)
  then show ?case by (simp add: dbscanStep_inv)
qed

lemma dbscanRaw_inv:
  "dbscanInv (length vectors) (length vectors) (dbscanRaw vectors epsilon minPts)"
  unfolding dbscanRaw_def by (rule dbscanRaw_partial) simp

text \<open>The number of clusters of a labelling: its distinct labels other than \<open>-1\<close>.\<close>

definition numClusters :: "int list \<Rightarrow> nat" where
  "numClusters labels = card (set labels - {-1})"

lemma dbscan_range:
  "length (dbscan vectors epsilon minPts) = length vectors \<and>
   set (dbscan vectors epsilon minPts) - {-1} = {0 ..< snd (dbscanRaw vectors epsilon minPts)}"
proof -
  obtain labels clusterId where raw: "dbscanRaw vectors epsilon minPts = (labels, clusterId)"
    by (cases "dbscanRaw vectors epsilon minPts")
  let ?n = "length vectors"
  from dbscanRaw_inv [of vectors epsilon minPts] raw
  have len: "length labels = ?n" and c0: "0 \<le> clusterId"
    and rng: "\<And>p. p < ?n \<Longrightarrow> labels ! p = -1 \<or> (0 \<le> labels ! p \<and> labels ! p \<le> clusterId)"
    and occ: "\<And>c. 1 \<le> c \<Longrightarrow> c \<le> clusterId \<Longrightarrow> \<exists>p<?n. labels ! p = c"
    and seen: "\<And>p. p < ?n \<Longrightarrow> labels ! p \<noteq> 0"
    by (auto simp: dbscanInv_def)
  let ?r = "dbscan vectors epsilon minPts"
  have r: "?r = map (\<lambda>l. if l = -1 then -1 else l - 1) labels"
    by (simp add: dbscan_def raw)
  have "set ?r - {-1} \<subseteq> {0..<clusterId}"
  proof
    fix x assume x: "x \<in> set ?r - {-1}"
    then obtain p where p: "p < ?n" "x = (if labels ! p = -1 then -1 else labels ! p - 1)"
      unfolding r using len by (auto simp: in_set_conv_nth)
    with x rng [OF p(1)] seen [OF p(1)] show "x \<in> {0..<clusterId}"
      by (auto split: if_splits)
  qed
  moreover have "{0..<clusterId} \<subseteq> set ?r - {-1}"
  proof
    fix x assume x: "x \<in> {0..<clusterId}"
    then have "1 \<le> x + 1" "x + 1 \<le> clusterId" by simp_all
    from occ [OF this] obtain p where p: "p < ?n" "labels ! p = x + 1" by blast
    then have "labels ! p \<in> set labels" using len nth_mem [of p labels] by simp
    then have "(if labels ! p = -1 then -1 else labels ! p - 1) \<in> set ?r"
      unfolding r by (simp only: set_map image_eqI)
    then show "x \<in> set ?r - {-1}" using p(2) x by (auto split: if_splits)
  qed
  ultimately show ?thesis using r len raw by auto
qed

text \<open>
  C3: every entry of the array \<^verbatim>\<open>dbscan\<close> returns is \<open>-1\<close> or a zero-based cluster label,
  and the labels other than \<open>-1\<close> that occur are exactly \<open>0, \<dots>, numClusters - 1\<close>; there is
  one entry per input vector.
\<close>

theorem dbscan_labels:
  assumes "uniform d vectors"
  shows "length (dbscan vectors epsilon minPts) = length vectors \<and>
         set (dbscan vectors epsilon minPts) - {-1} =
           {0 ..< int (numClusters (dbscan vectors epsilon minPts))}"
proof -
  let ?r = "dbscan vectors epsilon minPts"
  let ?c = "snd (dbscanRaw vectors epsilon minPts)"
  from dbscan_range [of vectors epsilon minPts]
  have len: "length ?r = length vectors" and s: "set ?r - {-1} = {0..<?c}" by simp_all
  have "0 \<le> ?c"
    using dbscanRaw_inv [of vectors epsilon minPts] by (auto simp: dbscanInv_def split: prod.splits)
  then have "int (numClusters ?r) = ?c" unfolding numClusters_def s by simp
  then show ?thesis using len s by simp
qed

subsection \<open>Deciding a comparison with a distance\<close>

lemma sqrt_le_iff: "0 \<le> x \<Longrightarrow> sqrt x \<le> e \<longleftrightarrow> 0 \<le> e \<and> x \<le> e * e"
proof (cases "0 \<le> e")
  case True
  assume "0 \<le> x"
  have "sqrt x \<le> e \<longleftrightarrow> sqrt x \<le> sqrt (e * e)" using True by simp
  also have "\<dots> \<longleftrightarrow> x \<le> e * e" by (rule real_sqrt_le_iff)
  finally show ?thesis using True by simp
next
  case False
  assume "0 \<le> x"
  then have "0 \<le> sqrt x" by simp
  then show ?thesis using False by linarith
qed

lemma squares_fold_nonneg:
  "0 \<le> s \<Longrightarrow>
   0 \<le> fold (\<lambda>i sum. let diff = (a :: real list) ! i - b ! i in sum + diff * diff) is s"
  by (induction "is" arbitrary: s) (simp_all add: Let_def)

lemma euclideanDistance_le_iff:
  "euclideanDistance a b \<le> e \<longleftrightarrow>
     0 \<le> e \<and>
     fold (\<lambda>i sum. let diff = a ! i - b ! i in sum + diff * diff) [0..<length a] 0 \<le> e * e"
  unfolding euclideanDistance_def by (rule sqrt_le_iff) (simp add: squares_fold_nonneg)

subsection \<open>The end-to-end scenario\<close>

definition scenario :: "vec list" where
  "scenario = [[1, 0], [99 / 100, 1 / 100], [0, 1], [1 / 100, 99 / 100]]"

lemma scenario_neighbors:
  "getNeighbors scenario (1 / 10) 0 = [1]"
  "getNeighbors scenario (1 / 10) 1 = [0]"
  "getNeighbors scenario (1 / 10) (Suc 0) = [0]"
  "getNeighbors scenario (1 / 10) 2 = [3]"
  "getNeighbors scenario (1 / 10) 3 = [2]"
  by (simp_all only: getNeighbors_def euclideanDistance_le_iff)
     (simp_all add: scenario_def Let_def)


lemma scenario_raw: "dbscanRaw scenario (1 / 10) 2 = ([1, 1, 2, 2], 2)"
proof -
  have n: "length scenario = 4" by (simp add: scenario_def)
  have s0: "dbscanStep scenario (1 / 10) 2 0 ([0, 0, 0, 0], 0) = ([1, 1, 0, 0], 1)"
    by (simp add: dbscanStep_def scenario_neighbors expandCluster.simps pushNew_def Let_def)
  have s1: "dbscanStep scenario (1 / 10) 2 1 ([1, 1, 0, 0], 1) = ([1, 1, 0, 0], 1)"
    by (simp add: dbscanStep_def)
  have s2: "dbscanStep scenario (1 / 10) 2 2 ([1, 1, 0, 0], 1) = ([1, 1, 2, 2], 2)"
    by (simp add: dbscanStep_def scenario_neighbors expandCluster.simps pushNew_def Let_def)
  have s3: "dbscanStep scenario (1 / 10) 2 3 ([1, 1, 2, 2], 2) = ([1, 1, 2, 2], 2)"
    by (simp add: dbscanStep_def)
  have idx: "[0..<4] = [0, 1, 2, 3::nat]" by code_simp
  have init: "replicate 4 (0::int) = [0, 0, 0, 0]" by code_simp
  show ?thesis
    unfolding dbscanRaw_def n idx init by (simp only: fold_simps o_apply s0 s1 s2 s3)
qed

theorem dbscan_labels_witness:
  "uniform 2 scenario \<and>
   length (dbscan scenario (1 / 10) 2) = 4 \<and>
   set (dbscan scenario (1 / 10) 2) - {-1} = {0 ..< int (numClusters (dbscan scenario (1 / 10) 2))} \<and>
   numClusters (dbscan scenario (1 / 10) 2) = 2"
proof -
  have u: "uniform 2 scenario" by (simp add: uniform_def scenario_def)
  have r: "dbscan scenario (1 / 10) 2 = [0, 0, 1, 1]" by (simp add: dbscan_def scenario_raw)
  have "set [0, 0, 1, 1 :: int] - {-1} = {0, 1}" by auto
  then have c: "numClusters [0, 0, 1, 1] = 2" by (simp add: numClusters_def)
  have l: "length (dbscan scenario (1 / 10) 2) = 4" by (simp add: r)
  have c': "numClusters (dbscan scenario (1 / 10) 2) = 2" by (simp add: r c)
  from dbscan_labels [OF u, of "1 / 10" 2]
  have "set (dbscan scenario (1 / 10) 2) - {-1} =
          {0 ..< int (numClusters (dbscan scenario (1 / 10) 2))}" by (rule conjunct2)
  with u l c' show ?thesis by (intro conjI)
qed

text \<open>
  C7: on the vectors \<open>[1,0]\<close>, \<open>[0.99,0.01]\<close>, \<open>[0,1]\<close>, \<open>[0.01,0.99]\<close> with
  \<open>epsilon = 0.1\<close> and \<open>minPts = 2\<close>, \<^verbatim>\<open>dbscan\<close> puts points 0 and 1 in cluster 0 and points
  2 and 3 in cluster 1; no point is noise.
\<close>

theorem dbscan_scenario:
  "dbscan [[1, 0], [99 / 100, 1 / 100], [0, 1], [1 / 100, 99 / 100]] (1 / 10) 2 = [0, 0, 1, 1]"
  using scenario_raw by (simp add: dbscan_def scenario_def)

section \<open>Partitioning clusterer (k-means)\<close>

text \<open>\<^verbatim>\<open>a.map((val, i) => val + b[i])\<close> and \<^verbatim>\<open>a.map(val => val / scalar)\<close>.\<close>

definition addVectors :: "vec \<Rightarrow> vec \<Rightarrow> vec" where
  "addVectors a b = map (\<lambda>(i, val). val + b ! i) (enumerate 0 a)"

definition divideVector :: "vec \<Rightarrow> real \<Rightarrow> vec" where
  "divideVector a scalar = map (\<lambda>val. val / scalar) a"

text \<open>
  \<^verbatim>\<open>Math.random()\<close> is an input of the model: \<open>rnd t\<close> is the value of the \<open>t\<close>-th call, a
  number in \<open>[0, 1)\<close>, and the functions that draw return the number of calls made so far.
  \<^verbatim>\<open>Math.floor(Math.random() * vectors.length)\<close>:
\<close>

definition randomIndex :: "(nat \<Rightarrow> real) \<Rightarrow> nat \<Rightarrow> nat \<Rightarrow> nat" where
  "randomIndex rnd t n = nat \<lfloor>rnd t * real n\<rfloor>"

definition unitInterval :: "(nat \<Rightarrow> real) \<Rightarrow> bool" where
  "unitInterval rnd = (\<forall>t. 0 \<le> rnd t \<and> rnd t < 1)"

text \<open>
  The seeding loop draws until it has \<open>k\<close> centroids from distinct indices. Nothing bounds
  the number of draws, so the loop is a partial function: \<open>None\<close> when it runs forever.
\<close>

partial_function (option) initCentroids ::
  "(nat \<Rightarrow> real) \<Rightarrow> vec list \<Rightarrow> nat \<Rightarrow> vec list \<Rightarrow> nat set \<Rightarrow> nat \<Rightarrow> (vec list \<times> nat) option" where
  "initCentroids rnd vectors k centroids usedIndices t =
     (if length centroids < k then
        let idx = randomIndex rnd t (length vectors)
        in if idx \<notin> usedIndices
           then initCentroids rnd vectors k (centroids @ [vectors ! idx])
                  (insert idx usedIndices) (t + 1)
           else initCentroids rnd vectors k centroids usedIndices (t + 1)
      else Some (centroids, t))"

text \<open>
  The scan for the nearest centroid: \<open>minDist\<close> starts at \<^verbatim>\<open>Infinity\<close> (\<open>None\<close>) and
  \<open>closestCluster\<close> at 0; a centroid wins only when strictly nearer.
\<close>

definition closestCentroid :: "vec \<Rightarrow> vec list \<Rightarrow> nat \<Rightarrow> nat" where
  "closestCentroid v centroids k =
     snd (fold (\<lambda>c (minDist, closestCluster).
                  let dist = euclideanDistance v (centroids ! c)
                  in if (case minDist of None \<Rightarrow> True | Some m \<Rightarrow> dist < m)
                     then (Some dist, c) else (minDist, closestCluster))
               [0..<k] (None, 0))"

text \<open>
  The body of the assignment loop for point \<open>i\<close>. \<^verbatim>\<open>newClusterSums[closestCluster]\<close> is
  \<^verbatim>\<open>undefined\<close> when \<open>k = 0\<close>, and \<^verbatim>\<open>addVectors\<close> then fails on \<^verbatim>\<open>a.map\<close>.
\<close>

type_synonym assignState = "int list \<times> bool \<times> vec list \<times> nat list"

definition assignStep :: "vec list \<Rightarrow> vec list \<Rightarrow> nat \<Rightarrow> nat \<Rightarrow> assignState \<Rightarrow> error + assignState" where
  "assignStep vectors centroids k i state =
     (case state of (assignments, changed, newClusterSums, newClusterCounts) \<Rightarrow>
        let closestCluster = closestCentroid (vectors ! i) centroids k;
            differs = (assignments ! i \<noteq> int closestCluster);
            assignments' = (if differs then assignments[i := int closestCluster] else assignments);
            changed' = (if differs then True else changed)
        in if closestCluster < length newClusterSums
           then Inr (assignments', changed',
                     newClusterSums[closestCluster :=
                       addVectors (newClusterSums ! closestCluster) (vectors ! i)],
                     newClusterCounts[closestCluster := newClusterCounts ! closestCluster + 1])
           else Inl TypeError)"

definition assignAll :: "vec list \<Rightarrow> vec list \<Rightarrow> nat \<Rightarrow> nat \<Rightarrow> int list \<Rightarrow> error + assignState" where
  "assignAll vectors centroids k dimension assignments =
     fold (\<lambda>i acc. case acc of Inl e \<Rightarrow> Inl e | Inr state \<Rightarrow> assignStep vectors centroids k i state)
          [0..<length vectors]
          (Inr (assignments, False, replicate k (replicate dimension 0), replicate k 0))"

text \<open>
  The centroid update: the mean of the assigned points, or a fresh random vector for a
  cluster that received none.
\<close>

definition updateCentroids ::
  "(nat \<Rightarrow> real) \<Rightarrow> vec list \<Rightarrow> nat \<Rightarrow> vec list \<Rightarrow> nat list \<Rightarrow> vec list \<Rightarrow> nat \<Rightarrow> vec list \<times> nat" where
  "updateCentroids rnd vectors k newClusterSums newClusterCounts centroids t =
     fold (\<lambda>c (centroids, t).
             if newClusterCounts ! c > 0
             then (centroids[c := divideVector (newClusterSums ! c) (real (newClusterCounts ! c))], t)
             else let randomIdx = randomIndex rnd t (length vectors)
                  in (centroids[c := vectors ! randomIdx], t + 1))
          [0..<k] (centroids, t)"

function kMeansLoop ::
  "(nat \<Rightarrow> real) \<Rightarrow> vec list \<Rightarrow> nat \<Rightarrow> int \<Rightarrow> nat \<Rightarrow> vec list \<Rightarrow> int list \<Rightarrow> int \<Rightarrow> bool \<Rightarrow> nat
     \<Rightarrow> error + int list" where
  "kMeansLoop rnd vectors k maxIterations dimension centroids assignments iterations changed t =
     (if changed \<and> iterations < maxIterations then
        (case assignAll vectors centroids k dimension assignments of
           Inl e \<Rightarrow> Inl e
         | Inr (assignments', changed', newClusterSums, newClusterCounts) \<Rightarrow>
             (case updateCentroids rnd vectors k newClusterSums newClusterCounts centroids t of
                (centroids', t') \<Rightarrow>
                  kMeansLoop rnd vectors k maxIterations dimension centroids' assignments'
                    (iterations + 1) changed' t'))
      else Inr assignments)"
  by pat_completeness auto
termination
  by (relation "measure (\<lambda>(rnd, vectors, k, maxIterations, dimension, centroids, assignments,
                            iterations, changed, t). nat (maxIterations - iterations))") auto

declare kMeansLoop.simps [simp del]

text \<open>
  \<^verbatim>\<open>kMeans\<close>. The result is \<open>None\<close> when the seeding loop does not end, \<open>Some (Inl e)\<close> when
  the source raises, \<open>Some (Inr labels)\<close> when it returns the labels.
\<close>

definition kMeans :: "(nat \<Rightarrow> real) \<Rightarrow> vec list \<Rightarrow> nat \<Rightarrow> int \<Rightarrow> (error + int list) option" where
  "kMeans rnd vectors k maxIterations =
     (if length vectors = 0 then Some (Inr [])
      else if k \<ge> length vectors then Some (Inr (map int [0..<length vectors]))
      else
        let dimension = length (vectors ! 0)
        in case initCentroids rnd vectors k [] {} 0 of
             None \<Rightarrow> None
           | Some (centroids, t) \<Rightarrow>
               Some (kMeansLoop rnd vectors k maxIterations dimension centroids
                       (replicate (length vectors) (-1)) 0 True t))"

text \<open>
  C2: on the empty collection \<^verbatim>\<open>kMeans\<close> returns the empty assignment, and with
  \<open>k \<ge> n\<close> it returns the identity labelling \<open>[0, \<dots>, n - 1]\<close>; neither case draws a
  random number or enters the iteration.
\<close>

theorem kMeans_trivial:
  "kMeans rnd [] k maxIterations = Some (Inr []) \<and>
   (length vectors \<le> k \<longrightarrow>
      kMeans rnd vectors k maxIterations = Some (Inr (map int [0..<length vectors])))"
  by (simp add: kMeans_def)

theorem kMeans_trivial_witness:
  "kMeans (\<lambda>t. 0) [[1], [2], [4]] 5 20 = Some (Inr [0, 1, 2])"
proof -
  have "[0..<3] = [0, 1, 2::nat]" by code_simp
  then show ?thesis
    using kMeans_trivial [of "\<lambda>t. 0" 5 20 "[[1], [2], [4]]"] by simp
qed

subsection \<open>The seeding loop ends once \<open>k\<close> distinct indices have been drawn\<close>

definition drawsDistinct :: "(nat \<Rightarrow> real) \<Rightarrow> nat \<Rightarrow> nat \<Rightarrow> nat \<Rightarrow> bool" where
  "drawsDistinct rnd n k T = (k \<le> card ((\<lambda>t. randomIndex rnd t n) ` {..<T}))"

lemma initCentroids_returns:
  assumes fair: "drawsDistinct rnd (length vectors) k T"
  shows "usedIndices = (\<lambda>t. randomIndex rnd t (length vectors)) ` {..<t} \<Longrightarrow>
         card usedIndices = length centroids \<Longrightarrow> length centroids \<le> k \<Longrightarrow> t \<le> T \<Longrightarrow>
         \<exists>cs t'. initCentroids rnd vectors k centroids usedIndices t = Some (cs, t') \<and> length cs = k"
proof (induction "T - t" arbitrary: t centroids usedIndices rule: less_induct)
  case less
  let ?f = "\<lambda>t. randomIndex rnd t (length vectors)"
  show ?case
  proof (cases "length centroids < k")
    case False
    then have "length centroids = k" using less.prems by simp
    then show ?thesis by (subst initCentroids.simps) simp
  next
    case True
    have tT: "t < T"
    proof (rule ccontr)
      assume "\<not> t < T"
      then have "t = T" using less.prems by simp
      then have "k \<le> card usedIndices" using fair less.prems(1) by (simp add: drawsDistinct_def)
      then show False using True less.prems(2) by simp
    qed
    have fin: "finite usedIndices" using less.prems(1) by simp
    have next_used: "insert (?f t) usedIndices = ?f ` {..<t + 1}"
      using less.prems(1) by (simp add: lessThan_Suc)
    show ?thesis
    proof (cases "?f t \<in> usedIndices")
      case False
      have "\<exists>cs t'. initCentroids rnd vectors k (centroids @ [vectors ! ?f t])
                (insert (?f t) usedIndices) (t + 1) = Some (cs, t') \<and> length cs = k"
      proof (rule less.hyps)
        show "T - (t + 1) < T - t" using tT by simp
        show "insert (?f t) usedIndices = ?f ` {..<t + 1}" by (rule next_used)
        show "card (insert (?f t) usedIndices) = length (centroids @ [vectors ! ?f t])"
          using False fin less.prems(2) by simp
        show "length (centroids @ [vectors ! ?f t]) \<le> k" using True by simp
        show "t + 1 \<le> T" using tT by simp
      qed
      then show ?thesis using True False
        by (subst initCentroids.simps) (simp add: Let_def)
    next
      case used: True
      have "\<exists>cs t'. initCentroids rnd vectors k centroids usedIndices (t + 1) = Some (cs, t') \<and>
              length cs = k"
      proof (rule less.hyps)
        show "T - (t + 1) < T - t" using tT by simp
        show "usedIndices = ?f ` {..<t + 1}" using next_used used by (simp add: insert_absorb)
        show "card usedIndices = length centroids" by (rule less.prems(2))
        show "length centroids \<le> k" by (rule less.prems(3))
        show "t + 1 \<le> T" using tT by simp
      qed
      then show ?thesis using True used
        by (subst initCentroids.simps) (simp add: Let_def)
    qed
  qed
qed

subsection \<open>Labels after a pass of the assignment loop\<close>

definition inRange :: "nat \<Rightarrow> int list \<Rightarrow> bool" where
  "inRange k labels = list_all (\<lambda>l. 0 \<le> l \<and> l < int k) labels"

lemma closestCentroid_fold_less:
  "0 < k \<Longrightarrow> c0 < k \<Longrightarrow>
   snd (fold (\<lambda>c (minDist, closestCluster).
                  let dist = euclideanDistance v (centroids ! c)
                  in if (case minDist of None \<Rightarrow> True | Some m \<Rightarrow> dist < m)
                     then (Some dist, c) else (minDist, closestCluster))
               [0..<j] (m0, c0)) < k \<or> k < j"
proof (induction j)
  case 0
  then show ?case by simp
next
  case (Suc j)
  then show ?case
    by (cases "k < j") (auto simp: Let_def split: prod.splits if_splits)
qed

lemma closestCentroid_less: "0 < k \<Longrightarrow> closestCentroid v centroids k < k"
  using closestCentroid_fold_less [of k 0 v centroids k None] by (simp add: closestCentroid_def)

lemma assignStep_ok:
  assumes k: "0 < k" and ls: "length newClusterSums = k" and i: "i < length assignments"
  shows "\<exists>assignments' changed' sums' counts'.
           assignStep vectors centroids k i (assignments, changed, newClusterSums, newClusterCounts)
             = Inr (assignments', changed', sums', counts') \<and>
           length assignments' = length assignments \<and> length sums' = k \<and>
           0 \<le> assignments' ! i \<and> assignments' ! i < int k \<and>
           (\<forall>p. p \<noteq> i \<longrightarrow> assignments' ! p = assignments ! p)"
proof -
  let ?c = "closestCentroid (vectors ! i) centroids k"
  have c: "?c < k" using k by (rule closestCentroid_less)
  show ?thesis
  proof (cases "assignments ! i \<noteq> int ?c")
    case True
    then show ?thesis using c ls i by (auto simp: assignStep_def Let_def)
  next
    case False
    then show ?thesis using c ls i by (auto simp: assignStep_def Let_def)
  qed
qed

definition assignInv :: "nat \<Rightarrow> nat \<Rightarrow> nat \<Rightarrow> error + assignState \<Rightarrow> bool" where
  "assignInv n k m acc =
     (case acc of
        Inl e \<Rightarrow> False
      | Inr (assignments, changed, newClusterSums, newClusterCounts) \<Rightarrow>
          length assignments = n \<and> length newClusterSums = k \<and>
          (\<forall>p<m. 0 \<le> assignments ! p \<and> assignments ! p < int k))"

lemma assignAll_partial:
  assumes k: "0 < k" and n: "length assignments = length vectors"
  shows "m \<le> length vectors \<Longrightarrow>
         assignInv (length vectors) k m
           (fold (\<lambda>i acc. case acc of Inl e \<Rightarrow> Inl e
                          | Inr state \<Rightarrow> assignStep vectors centroids k i state)
                 [0..<m]
                 (Inr (assignments, False, replicate k (replicate dimension 0), replicate k 0)))"
proof (induction m)
  case 0
  show ?case using n by (simp add: assignInv_def)
next
  case (Suc m)
  let ?acc = "fold (\<lambda>i acc. case acc of Inl e \<Rightarrow> Inl e
                          | Inr state \<Rightarrow> assignStep vectors centroids k i state)
                 [0..<m]
                 (Inr (assignments, False, replicate k (replicate dimension 0), replicate k 0))"
  from Suc have inv: "assignInv (length vectors) k m ?acc" by simp
  then obtain a ch s c where acc: "?acc = Inr (a, ch, s, c)"
    and la: "length a = length vectors" and lsum: "length s = k"
    and rng: "\<And>p. p < m \<Longrightarrow> 0 \<le> a ! p \<and> a ! p < int k"
    by (auto simp: assignInv_def split: sum.splits)
  have "m < length a" using Suc.prems la by simp
  from assignStep_ok [OF k lsum this, of vectors centroids ch c]
  obtain a' ch' s' c' where
    st: "assignStep vectors centroids k m (a, ch, s, c) = Inr (a', ch', s', c')"
    and la': "length a' = length a" and ls': "length s' = k"
    and am: "0 \<le> a' ! m" "a' ! m < int k"
    and oth: "\<And>p. p \<noteq> m \<Longrightarrow> a' ! p = a ! p"
    by blast
  have "0 \<le> a' ! p \<and> a' ! p < int k" if "p < Suc m" for p
  proof (cases "p = m")
    case True
    then show ?thesis using am by simp
  next
    case False
    then have "p < m" using that by simp
    then show ?thesis using rng oth [OF False] by simp
  qed
  then have "assignInv (length vectors) k (Suc m) (Inr (a', ch', s', c'))"
    using la la' ls' by (simp add: assignInv_def)
  then show ?case using acc st by simp
qed

lemma assignAll_inRange:
  assumes k: "0 < k" and n: "length assignments = length vectors"
  shows "\<exists>assignments' changed' sums' counts'.
           assignAll vectors centroids k dimension assignments
             = Inr (assignments', changed', sums', counts') \<and>
           length assignments' = length vectors \<and> inRange k assignments'"
proof -
  from assignAll_partial [OF k n, of "length vectors" centroids dimension]
  have "assignInv (length vectors) k (length vectors)
          (assignAll vectors centroids k dimension assignments)"
    by (simp add: assignAll_def)
  then show ?thesis
    by (auto simp: assignInv_def inRange_def list_all_length split: sum.splits)
qed

lemma kMeansLoop_inRange:
  "0 < k \<Longrightarrow> length assignments = length vectors \<Longrightarrow>
   \<exists>labels. kMeansLoop rnd vectors k maxIterations dimension centroids assignments
              iterations changed t = Inr labels \<and>
            length labels = length vectors \<and>
            ((changed \<and> iterations < maxIterations) \<or> inRange k assignments \<longrightarrow> inRange k labels)"
proof (induction rnd vectors k maxIterations dimension centroids assignments iterations changed t
       rule: kMeansLoop.induct)
  case (1 rnd vectors k maxIterations dimension centroids assignments iterations changed t)
  show ?case
  proof (cases "changed \<and> iterations < maxIterations")
    case False
    have "kMeansLoop rnd vectors k maxIterations dimension centroids assignments
            iterations changed t = Inr assignments"
      by (subst kMeansLoop.simps) (simp only: False if_False)
    then show ?thesis using "1.prems" False by auto
  next
    case True
    from assignAll_inRange [OF "1.prems", of centroids dimension]
    obtain a' ch' s' c' where
      aa: "assignAll vectors centroids k dimension assignments = Inr (a', ch', s', c')"
      and la': "length a' = length vectors" and ra': "inRange k a'" by blast
    obtain cs' t' where uc: "updateCentroids rnd vectors k s' c' centroids t = (cs', t')"
      by (cases "updateCentroids rnd vectors k s' c' centroids t")
    have "\<exists>labels. kMeansLoop rnd vectors k maxIterations dimension cs' a'
              (iterations + 1) ch' t' = Inr labels \<and>
            length labels = length vectors \<and>
            ((ch' \<and> iterations + 1 < maxIterations) \<or> inRange k a' \<longrightarrow> inRange k labels)"
      using "1.IH" [OF True aa refl refl refl uc [symmetric] "1.prems"(1) la'] .
    then obtain labels where
      "kMeansLoop rnd vectors k maxIterations dimension cs' a' (iterations + 1) ch' t' = Inr labels"
      "length labels = length vectors" "inRange k labels"
      using ra' by blast
    moreover have "kMeansLoop rnd vectors k maxIterations dimension centroids assignments
            iterations changed t =
          kMeansLoop rnd vectors k maxIterations dimension cs' a' (iterations + 1) ch' t'"
      by (subst kMeansLoop.simps) (simp only: True if_True aa uc sum.case prod.case simp_thms)
    ultimately show ?thesis by simp
  qed
qed

text \<open>
  C6, as the code has it: with an iteration bound of at least 1 the first pass of the
  assignment loop gives every point a label in \<open>[0, k)\<close>, and later passes keep it so.
  For a nonempty collection of \<open>n\<close> vectors, \<open>1 \<le> k < n\<close>, an iteration bound \<open>\<ge> 1\<close> and a
  random source whose first \<open>T\<close> draws hit \<open>k\<close> distinct indices, \<^verbatim>\<open>kMeans\<close> returns without
  raising, one label per vector, every label in \<open>[0, k)\<close>.
\<close>

theorem kMeans_labels:
  assumes "uniform d vectors" and "1 \<le> k" and "k < length vectors" and "1 \<le> maxIterations"
    and "unitInterval rnd" and "drawsDistinct rnd (length vectors) k T"
  shows "\<exists>labels. kMeans rnd vectors k maxIterations = Some (Inr labels) \<and>
           length labels = length vectors \<and> inRange k labels"
proof -
  have "\<exists>cs t'. initCentroids rnd vectors k [] {} 0 = Some (cs, t') \<and> length cs = k"
    using assms(6) by (rule initCentroids_returns) simp_all
  then obtain cs t' where init: "initCentroids rnd vectors k [] {} 0 = Some (cs, t')" by blast
  let ?a = "replicate (length vectors) (-1 :: int)"
  have "0 < k" using assms(2) by simp
  moreover have "length ?a = length vectors" by simp
  ultimately obtain labels where
    l: "kMeansLoop rnd vectors k maxIterations (length (vectors ! 0)) cs ?a 0 True t' = Inr labels"
      "length labels = length vectors"
      "(True \<and> 0 < maxIterations) \<or> inRange k ?a \<longrightarrow> inRange k labels"
    using kMeansLoop_inRange [of k ?a vectors rnd maxIterations "length (vectors ! 0)" cs 0 True t']
    by blast
  have "inRange k labels" using l(3) assms(4) by simp
  moreover have "length vectors \<noteq> 0" "\<not> length vectors \<le> k" using assms(3) by auto
  then have "kMeans rnd vectors k maxIterations = Some (Inr labels)"
    using init l(1) by (simp add: kMeans_def)
  ultimately show ?thesis using l(2) by blast
qed

definition twoDraws :: "nat \<Rightarrow> real" where
  "twoDraws t = (if t = 0 then 0 else 1 / 2)"

theorem kMeans_labels_witness:
  "uniform 1 [[0], [1], [5]] \<and> unitInterval twoDraws \<and> drawsDistinct twoDraws 3 2 2 \<and>
   (\<exists>labels. kMeans twoDraws [[0], [1], [5]] 2 20 = Some (Inr labels) \<and>
      length labels = 3 \<and> inRange 2 labels)"
proof -
  have u: "uniform 1 [[0], [1], [5]]" by (simp add: uniform_def)
  have r: "unitInterval twoDraws" by (simp add: unitInterval_def twoDraws_def)
  have "{..<2::nat} = {0, 1}" by auto
  then have "(\<lambda>t. randomIndex twoDraws t 3) ` {..<2} = {0, 1}"
    by (simp add: randomIndex_def twoDraws_def)
  then have f: "drawsDistinct twoDraws 3 2 2" by (simp add: drawsDistinct_def)
  have len: "length [[0], [1], [5::real]] = 3" by simp
  have f': "drawsDistinct twoDraws (length [[0], [1], [5::real]]) 2 2" unfolding len by (rule f)
  have "\<exists>labels. kMeans twoDraws [[0], [1], [5]] 2 20 = Some (Inr labels) \<and>
          length labels = length [[0], [1], [5::real]] \<and> inRange 2 labels"
    by (rule kMeans_labels [OF u _ _ _ r f']) simp_all
  then show ?thesis unfolding len using u r f by (intro conjI)
qed

text \<open>
  C6 as stated, for every iteration bound, fails: with a bound of 0 the loop body never
  runs and the initial array, filled with \<open>-1\<close>, is returned.
\<close>

lemma initCentroids_one:
  "initCentroids (\<lambda>t. 0) [[0], [1]] 1 [] {} 0 = Some ([[0]], 1)"
proof -
  have "initCentroids (\<lambda>t. 0) [[0], [1]] 1 [] {} 0 =
        initCentroids (\<lambda>t. 0) [[0], [1]] 1 [[0]] {0} 1"
    by (subst initCentroids.simps) (simp add: randomIndex_def)
  also have "\<dots> = Some ([[0]], 1)"
    by (subst initCentroids.simps) simp
  finally show ?thesis .
qed

lemma kMeansLoop_zero:
  "kMeansLoop rnd vectors k 0 dimension centroids assignments 0 changed t = Inr assignments"
  by (subst kMeansLoop.simps) simp

theorem kMeans_zero_iterations:
  "kMeans (\<lambda>t. 0) [[0], [1]] 1 0 = Some (Inr [-1, -1]) \<and> \<not> inRange 1 [-1, -1]"
proof -
  have "replicate 2 (-1::int) = [-1, -1]" by code_simp
  then show ?thesis
    by (simp add: kMeans_def initCentroids_one kMeansLoop_zero inRange_def del: One_nat_def)
qed

subsection \<open>A random source that repeats itself\<close>

text \<open>
  The seeding loop has no bound of its own: when every further draw gives an index that
  is already used, it never ends. A source that always returns 0 does that for \<open>k \<ge> 2\<close>.
\<close>

lemma initCentroids_stuck:
  assumes r: "initCentroids rnd vectors k centroids usedIndices t = Some y"
    and u: "\<forall>t. randomIndex rnd t (length vectors) \<in> usedIndices"
  shows "k \<le> length centroids"
proof -
  have "(\<forall>t. randomIndex rnd t (length vectors) \<in> usedIndices) \<longrightarrow> k \<le> length centroids"
    using r
  proof (induct rule: initCentroids.raw_induct [rotated, consumes 1, case_names step])
    case (step initCentroids' rnd vectors k centroids usedIndices t y)
    show ?case
    proof (intro impI, rule ccontr)
      assume all: "\<forall>t. randomIndex rnd t (length vectors) \<in> usedIndices"
        and "\<not> k \<le> length centroids"
      then have lt: "length centroids < k" by simp
      have "randomIndex rnd t (length vectors) \<in> usedIndices" using all by blast
      with lt step(2)
      have "initCentroids' rnd vectors k centroids usedIndices (t + 1) = Some y"
        by (simp add: Let_def)
      from step(1) [OF this] all lt show False by simp
    qed
  qed
  then show ?thesis using u by blast
qed

lemma kMeans_constant_source: "kMeans (\<lambda>t. 0) [[0], [1], [2]] 2 20 = None"
proof -
  have first: "initCentroids (\<lambda>t. 0) [[0], [1], [2]] 2 [] {} 0 =
        initCentroids (\<lambda>t. 0) [[0], [1], [2]] 2 [[0]] {0} 1"
    by (subst initCentroids.simps) (simp add: randomIndex_def)
  have "initCentroids (\<lambda>t. 0) [[0], [1], [2]] 2 [[0]] {0} 1 = None"
  proof (cases "initCentroids (\<lambda>t. 0) [[0], [1], [2]] 2 [[0]] {0} 1")
    case None
    then show ?thesis .
  next
    case (Some y)
    then have "2 \<le> length [[0 :: real]]"
      by (rule initCentroids_stuck) (simp add: randomIndex_def)
    then show ?thesis by simp
  qed
  then show ?thesis by (simp add: kMeans_def first)
qed

section \<open>Self-organizing map: the U-matrix\<close>








subsection \<open>The U-matrix in the words of the specification\<close>





subsection \<open>A loop nest that rewrites every cell in place\<close>









subsection \<open>The scan for the extremes\<close>







subsection \<open>The raw value of a cell is the mean distance to its neighbours\<close>




subsection \<open>The three loop nests together\<close>







lemma euclideanDistance_1d: "euclideanDistance [a] [b] = \<bar>a - b\<bar>"
  by (simp add: euclideanDistance_def Let_def)





section \<open>Clustering quality evaluator\<close>

record ClusteringMetrics =
  silhouetteScore :: real
  daviesBouldinIndex :: real
  calinskiHarabaszIndex :: real

text \<open>
  \<^verbatim>\<open>Array.from(new Set(labels))\<close>: the distinct labels in the order of their first
  occurrence.
\<close>

definition uniqueLabels :: "int list \<Rightarrow> int list" where
  "uniqueLabels labels = fold (\<lambda>l seen. if l \<in> set seen then seen else seen @ [l]) labels []"

text \<open>
  \<^verbatim>\<open>vectors.filter((_, i) => labels[i] === k)\<close> and
  \<^verbatim>\<open>vectors.map((_, i) => i).filter(i => labels[i] === k)\<close>.
\<close>

definition clusterVectors :: "vec list \<Rightarrow> int list \<Rightarrow> int \<Rightarrow> vec list" where
  "clusterVectors vectors labels k =
     map snd (filter (\<lambda>(i, v). labels ! i = k) (enumerate 0 vectors))"

definition clusterIndices :: "vec list \<Rightarrow> int list \<Rightarrow> int \<Rightarrow> nat list" where
  "clusterIndices vectors labels k = filter (\<lambda>i. labels ! i = k) [0..<length vectors]"

text \<open>
  \<^verbatim>\<open>getClusterCentroids\<close>: a \<^verbatim>\<open>Map\<close> from label to centroid; a label without vectors gets
  no entry.
\<close>

definition getClusterCentroids :: "vec list \<Rightarrow> int list \<Rightarrow> int list \<Rightarrow> (int \<rightharpoonup> vec)" where
  "getClusterCentroids vectors labels uniqueClusters =
     fold (\<lambda>k centroids.
             let cvs = clusterVectors vectors labels k
             in if length cvs = 0 then centroids
                else
                  let sum = foldl addVectors (replicate (length (vectors ! 0)) 0) cvs
                  in centroids(k \<mapsto> divideVector sum (real (length cvs))))
          uniqueClusters Map.empty"

text \<open>
  \<^verbatim>\<open>centroids.get(k)!\<close> is \<^verbatim>\<open>undefined\<close> for a label without entry. \<^verbatim>\<open>euclideanDistance\<close>
  then fails when it reads \<^verbatim>\<open>.length\<close> of its first argument, or an index of its second
  inside the loop over the first.
\<close>

definition euclideanDistanceU :: "vec option \<Rightarrow> vec option \<Rightarrow> error + real" where
  "euclideanDistanceU vecA vecB =
     (case vecA of
        None \<Rightarrow> Inl TypeError
      | Some a \<Rightarrow>
          (case vecB of
             None \<Rightarrow> if length a = 0 then Inr 0 else Inl TypeError
           | Some b \<Rightarrow> Inr (euclideanDistance a b)))"

definition bindE :: "error + 'a \<Rightarrow> ('a \<Rightarrow> error + 'b) \<Rightarrow> error + 'b" where
  "bindE m f = (case m of Inl e \<Rightarrow> Inl e | Inr x \<Rightarrow> f x)"

subsection \<open>Silhouette score\<close>

text \<open>
  \<^verbatim>\<open>otherClusterDists\<close> is a \<^verbatim>\<open>Map\<close> from label to \<^verbatim>\<open>{sum, count}\<close>, read back in insertion
  order: an association list. A new label enters with sum 0 and count 0 and is then
  updated like any other.
\<close>

type_synonym clusterDists = "(int \<times> real \<times> nat) list"

definition addDist :: "clusterDists \<Rightarrow> int \<Rightarrow> real \<Rightarrow> clusterDists" where
  "addDist otherClusterDists otherLabel d =
     (let entries = (if otherLabel \<in> fst ` set otherClusterDists then otherClusterDists
                     else otherClusterDists @ [(otherLabel, 0, 0)])
      in map (\<lambda>(l, s, c). if l = otherLabel then (l, s + d, c + 1) else (l, s, c)) entries)"

text \<open>The inner loop over \<open>j\<close> for point \<open>i\<close>.\<close>

definition silhouetteInner ::
  "vec list \<Rightarrow> int list \<Rightarrow> nat \<Rightarrow> real \<times> nat \<times> clusterDists" where
  "silhouetteInner vectors labels i =
     fold (\<lambda>j (a, sameClusterCount, otherClusterDists).
             if i = j then (a, sameClusterCount, otherClusterDists)
             else
               let dist = euclideanDistance (vectors ! i) (vectors ! j);
                   otherLabel = labels ! j
               in if otherLabel = -1 then (a, sameClusterCount, otherClusterDists)
                  else if otherLabel = labels ! i
                       then (a + dist, sameClusterCount + 1, otherClusterDists)
                       else (a, sameClusterCount, addDist otherClusterDists otherLabel dist))
          [0..<length vectors] (0, 0, [])"

text \<open>The smallest mean distance to another cluster; \<open>None\<close> is \<^verbatim>\<open>Infinity\<close>.\<close>

definition minMeanDist :: "clusterDists \<Rightarrow> real option" where
  "minMeanDist otherClusterDists =
     fold (\<lambda>(l, s, c) minMeanDistOther.
             let meanDist = s / real c
             in if (case minMeanDistOther of None \<Rightarrow> True | Some m \<Rightarrow> meanDist < m)
                then Some meanDist else minMeanDistOther)
          otherClusterDists None"

definition silhouetteStep :: "vec list \<Rightarrow> int list \<Rightarrow> nat \<Rightarrow> real \<times> nat \<Rightarrow> real \<times> nat" where
  "silhouetteStep vectors labels i acc =
     (case acc of (totalScore, validPoints) \<Rightarrow>
        if labels ! i = -1 then (totalScore, validPoints)
        else
          (case silhouetteInner vectors labels i of (a0, sameClusterCount, otherClusterDists) \<Rightarrow>
             if sameClusterCount = 0 then (totalScore, validPoints)
             else
               let a = a0 / real sameClusterCount;
                   b = (case minMeanDist otherClusterDists of None \<Rightarrow> 0 | Some m \<Rightarrow> m);
                   maxAB = max a b;
                   s = (if maxAB = 0 then 0 else (b - a) / maxAB)
               in (totalScore + s, validPoints + 1)))"

definition calculateSilhouetteScore :: "vec list \<Rightarrow> int list \<Rightarrow> real" where
  "calculateSilhouetteScore vectors labels =
     (if length vectors < 2 then 0
      else case fold (silhouetteStep vectors labels) [0..<length vectors] (0, 0) of
             (totalScore, validPoints) \<Rightarrow>
               if validPoints > 0 then totalScore / real validPoints else 0)"

subsection \<open>Davies-Bouldin index\<close>

definition scatterOf :: "vec list \<Rightarrow> int list \<Rightarrow> (int \<rightharpoonup> vec) \<Rightarrow> int \<Rightarrow> error + real" where
  "scatterOf vectors labels centroids k =
     (let centroid = centroids k;
          indices = clusterIndices vectors labels k
      in bindE (fold (\<lambda>idx acc. bindE acc (\<lambda>sumDist.
                        bindE (euclideanDistanceU (Some (vectors ! idx)) centroid) (\<lambda>dist.
                          Inr (sumDist + dist))))
                     indices (Inr 0))
           (\<lambda>sumDist. Inr (sumDist / real (length indices))))"

definition getScatters ::
  "vec list \<Rightarrow> int list \<Rightarrow> int list \<Rightarrow> (int \<rightharpoonup> vec) \<Rightarrow> error + (int \<rightharpoonup> real)" where
  "getScatters vectors labels uniqueClusters centroids =
     fold (\<lambda>k acc. bindE acc (\<lambda>scatters.
             bindE (scatterOf vectors labels centroids k) (\<lambda>scatter.
               Inr (scatters(k \<mapsto> scatter)))))
          uniqueClusters (Inr Map.empty)"

text \<open>
  The largest \<open>R_ij\<close> for cluster \<open>i\<close>; \<open>None\<close> is \<^verbatim>\<open>-Infinity\<close>. The scatters are read
  before the distance of the centroids is computed; a scatter is present for every label
  of \<open>uniqueClusters\<close> once \<^verbatim>\<open>getScatters\<close> has returned.
\<close>

definition maxRatio ::
  "int list \<Rightarrow> (int \<rightharpoonup> vec) \<Rightarrow> (int \<rightharpoonup> real) \<Rightarrow> int \<Rightarrow> error + real option" where
  "maxRatio uniqueClusters centroids scatters i =
     fold (\<lambda>j acc. bindE acc (\<lambda>maxR.
             if i = j then Inr maxR
             else
               let scatterI = the (scatters i);
                   scatterJ = the (scatters j)
               in bindE (euclideanDistanceU (centroids i) (centroids j)) (\<lambda>distCentroids.
                    if distCentroids = 0 then Inr maxR
                    else
                      let R_ij = (scatterI + scatterJ) / distCentroids
                      in if (case maxR of None \<Rightarrow> True | Some m \<Rightarrow> R_ij > m)
                         then Inr (Some R_ij) else Inr maxR)))
          uniqueClusters (Inr None)"

definition calculateDaviesBouldinIndex ::
  "vec list \<Rightarrow> int list \<Rightarrow> int list \<Rightarrow> (int \<rightharpoonup> vec) \<Rightarrow> error + real" where
  "calculateDaviesBouldinIndex vectors labels uniqueClusters centroids =
     (if length uniqueClusters < 2 then Inr 0
      else
        bindE (getScatters vectors labels uniqueClusters centroids) (\<lambda>scatters.
          bindE (fold (\<lambda>i acc. bindE acc (\<lambda>sumMaxR.
                         bindE (maxRatio uniqueClusters centroids scatters i) (\<lambda>maxR.
                           case maxR of None \<Rightarrow> Inr sumMaxR
                                      | Some m \<Rightarrow> Inr (sumMaxR + m))))
                      uniqueClusters (Inr 0))
            (\<lambda>sumMaxR. Inr (sumMaxR / real (length uniqueClusters)))))"

subsection \<open>Calinski-Harabasz index\<close>

definition calculateCalinskiHarabaszIndex ::
  "vec list \<Rightarrow> int list \<Rightarrow> int list \<Rightarrow> (int \<rightharpoonup> vec) \<Rightarrow> error + real" where
  "calculateCalinskiHarabaszIndex vectors labels uniqueClusters centroids =
     (let N = length (filter (\<lambda>(i, v). labels ! i \<noteq> -1) (enumerate 0 vectors));
          K = length uniqueClusters
      in if K < 2 \<or> N \<le> K then Inr 0
         else
           let globalCentroid =
                 divideVector
                   (fold (\<lambda>v globalCentroid. addVectors globalCentroid v) vectors
                      (replicate (length (vectors ! 0)) 0))
                   (real (length vectors))
           in bindE (fold (\<lambda>k acc. bindE acc (\<lambda>SS_B.
                       let nk = length (clusterVectors vectors labels k)
                       in bindE (euclideanDistanceU (centroids k) (Some globalCentroid)) (\<lambda>dist.
                            Inr (SS_B + real nk * (dist * dist)))))
                     uniqueClusters (Inr 0)) (\<lambda>SS_B.
              bindE (fold (\<lambda>k acc.
                       fold (\<lambda>idx acc. bindE acc (\<lambda>SS_W.
                               bindE (euclideanDistanceU (Some (vectors ! idx)) (centroids k))
                                 (\<lambda>dist. Inr (SS_W + dist * dist))))
                            (clusterIndices vectors labels k) acc)
                     uniqueClusters (Inr 0)) (\<lambda>SS_W.
                if SS_W = 0 then Inr 0
                else Inr ((SS_B / real (K - 1)) / (SS_W / real (N - K))))))"

definition calculateClusteringMetrics :: "vec list \<Rightarrow> int list \<Rightarrow> error + ClusteringMetrics" where
  "calculateClusteringMetrics vectors labels =
     (let uniqueClusters = filter (\<lambda>l. l \<noteq> -1) (uniqueLabels labels);
          centroids = getClusterCentroids vectors labels uniqueClusters;
          silhouette = calculateSilhouetteScore vectors labels
      in bindE (calculateDaviesBouldinIndex vectors labels uniqueClusters centroids) (\<lambda>db.
           bindE (calculateCalinskiHarabaszIndex vectors labels uniqueClusters centroids) (\<lambda>ch.
             Inr \<lparr>silhouetteScore = silhouette, daviesBouldinIndex = db,
                  calinskiHarabaszIndex = ch\<rparr>)))"

subsection \<open>Every cluster has a scatter\<close>

text \<open>
  When \<^verbatim>\<open>getScatters\<close> returns, its map has an entry for every label of \<open>uniqueClusters\<close>,
  so the reads \<^verbatim>\<open>scatters.get(i)!\<close> of the second loop find a number.
\<close>

lemma getScatters_fold_dom:
  "fold (\<lambda>k acc. bindE acc (\<lambda>scatters.
           bindE (scatterOf vectors labels centroids k) (\<lambda>scatter.
             Inr (scatters(k \<mapsto> scatter)))))
        ks acc = Inr scatters' \<Longrightarrow>
   \<exists>scatters. acc = Inr scatters \<and> dom scatters' = dom scatters \<union> set ks"
proof (induction ks arbitrary: acc)
  case Nil
  then show ?case by (simp only: fold_simps id_apply) simp
next
  case (Cons k ks)
  let ?step = "bindE acc (\<lambda>scatters.
           bindE (scatterOf vectors labels centroids k) (\<lambda>scatter.
             Inr (scatters(k \<mapsto> scatter))))"
  from Cons.prems have "fold (\<lambda>k acc. bindE acc (\<lambda>scatters.
           bindE (scatterOf vectors labels centroids k) (\<lambda>scatter.
             Inr (scatters(k \<mapsto> scatter))))) ks ?step = Inr scatters'"
    by (simp only: fold_simps comp_apply)
  from Cons.IH [OF this] obtain m1 where
    m1: "?step = Inr m1" and d: "dom scatters' = dom m1 \<union> set ks" by blast
  from m1 obtain m0 s where "acc = Inr m0" "m1 = m0(k \<mapsto> s)"
    by (auto simp: bindE_def split: sum.splits)
  then show ?case using d by auto
qed

lemma getScatters_dom:
  "getScatters vectors labels uniqueClusters centroids = Inr scatters \<Longrightarrow>
   dom scatters = set uniqueClusters"
  unfolding getScatters_def by (drule getScatters_fold_dom) auto

subsection \<open>Distinct vectors are at a positive distance\<close>




subsection \<open>The silhouette of a single cluster\<close>








subsection \<open>Noise and the Calinski-Harabasz index\<close>

definition noisy :: "vec list" where "noisy = [[0], [1], [2], [3], [9]]"
definition noisyLabels :: "int list" where "noisyLabels = [0, 0, 1, 1, -1]"
definition cleaned :: "vec list" where "cleaned = [[0], [1], [2], [3]]"
definition cleanedLabels :: "int list" where "cleanedLabels = [0, 0, 1, 1]"

lemma idx5: "[0..<5] = [0, 1, 2, 3, 4::nat]" by code_simp
lemma idx4: "[0..<4] = [0, 1, 2, 3::nat]" by code_simp

lemma example_unique:
  "filter (\<lambda>l. l \<noteq> -1) (uniqueLabels noisyLabels) = [0, 1]"
  "filter (\<lambda>l. l \<noteq> -1) (uniqueLabels cleanedLabels) = [0, 1]"
  by (simp_all add: uniqueLabels_def noisyLabels_def cleanedLabels_def)

lemma example_clusters:
  "clusterVectors noisy noisyLabels 0 = [[0], [1]]"
  "clusterVectors noisy noisyLabels 1 = [[2], [3]]"
  "clusterVectors cleaned cleanedLabels 0 = [[0], [1]]"
  "clusterVectors cleaned cleanedLabels 1 = [[2], [3]]"
  "clusterIndices noisy noisyLabels 0 = [0, 1]"
  "clusterIndices noisy noisyLabels 1 = [2, 3]"
  "clusterIndices cleaned cleanedLabels 0 = [0, 1]"
  "clusterIndices cleaned cleanedLabels 1 = [2, 3]"
  by (simp_all add: clusterVectors_def clusterIndices_def noisy_def noisyLabels_def cleaned_def
        cleanedLabels_def idx5 idx4)

lemma addVectors_1d: "addVectors [a] [b] = [a + b]"
  by (simp add: addVectors_def)

lemma example_centroids:
  "getClusterCentroids noisy noisyLabels [0, 1] = [0 \<mapsto> [1 / 2], 1 \<mapsto> [5 / 2]]"
  "getClusterCentroids cleaned cleanedLabels [0, 1] = [0 \<mapsto> [1 / 2], 1 \<mapsto> [5 / 2]]"
  by (simp_all add: getClusterCentroids_def example_clusters addVectors_1d divideVector_def Let_def)
     (simp_all add: noisy_def cleaned_def addVectors_1d)


lemma example_calinskiHarabasz:
  "calculateCalinskiHarabaszIndex noisy noisyLabels [0, 1] [0 \<mapsto> [1 / 2], 1 \<mapsto> [5 / 2]] = Inr 26"
  "calculateCalinskiHarabaszIndex cleaned cleanedLabels [0, 1] [0 \<mapsto> [1 / 2], 1 \<mapsto> [5 / 2]] = Inr 8"
proof -
  have n: "length (filter (\<lambda>(i, v). noisyLabels ! i \<noteq> -1) (enumerate 0 noisy)) = 4"
    "length (filter (\<lambda>(i, v). cleanedLabels ! i \<noteq> -1) (enumerate 0 cleaned)) = 4"
    by (simp_all add: noisy_def noisyLabels_def cleaned_def cleanedLabels_def)
  have g: "divideVector (fold (\<lambda>v globalCentroid. addVectors globalCentroid v) noisy
             (replicate (length (noisy ! 0)) 0)) (real (length noisy)) = [3]"
    "divideVector (fold (\<lambda>v globalCentroid. addVectors globalCentroid v) cleaned
             (replicate (length (cleaned ! 0)) 0)) (real (length cleaned)) = [3 / 2]"
    by (simp_all add: noisy_def cleaned_def addVectors_1d divideVector_def)
  have v: "noisy ! 0 = [0]" "noisy ! 1 = [1]" "noisy ! 2 = [2]" "noisy ! 3 = [3]"
    "noisy ! Suc 0 = [1]"
    "cleaned ! 0 = [0]" "cleaned ! 1 = [1]" "cleaned ! 2 = [2]" "cleaned ! 3 = [3]"
    "cleaned ! Suc 0 = [1]"
    by (simp_all add: noisy_def cleaned_def)
  show "calculateCalinskiHarabaszIndex noisy noisyLabels [0, 1] [0 \<mapsto> [1 / 2], 1 \<mapsto> [5 / 2]] = Inr 26"
    unfolding calculateCalinskiHarabaszIndex_def n g Let_def
    by (simp add: example_clusters bindE_def euclideanDistanceU_def euclideanDistance_1d v)
  show "calculateCalinskiHarabaszIndex cleaned cleanedLabels [0, 1] [0 \<mapsto> [1 / 2], 1 \<mapsto> [5 / 2]] = Inr 8"
    unfolding calculateCalinskiHarabaszIndex_def n g Let_def
    by (simp add: example_clusters bindE_def euclideanDistanceU_def euclideanDistance_1d v)
qed


lemma example_vectors:
  "noisy ! 0 = [0]" "noisy ! 1 = [1]" "noisy ! 2 = [2]" "noisy ! 3 = [3]" "noisy ! 4 = [9]"
  "noisy ! Suc 0 = [1]"
  "cleaned ! 0 = [0]" "cleaned ! 1 = [1]" "cleaned ! 2 = [2]" "cleaned ! 3 = [3]"
  "cleaned ! Suc 0 = [1]"
  by (simp_all add: noisy_def cleaned_def)

lemma example_labels:
  "noisyLabels ! 0 = 0" "noisyLabels ! 1 = 0" "noisyLabels ! 2 = 1" "noisyLabels ! 3 = 1"
  "noisyLabels ! 4 = -1" "noisyLabels ! Suc 0 = 0"
  "cleanedLabels ! 0 = 0" "cleanedLabels ! 1 = 0" "cleanedLabels ! 2 = 1" "cleanedLabels ! 3 = 1"
  "cleanedLabels ! Suc 0 = 0"
  by (simp_all add: noisyLabels_def cleanedLabels_def)

lemma example_scatters:
  "getScatters noisy noisyLabels [0, 1] [0 \<mapsto> [1 / 2], 1 \<mapsto> [5 / 2]]
     = Inr [0 \<mapsto> 1 / 2, 1 \<mapsto> 1 / 2]"
  "getScatters cleaned cleanedLabels [0, 1] [0 \<mapsto> [1 / 2], 1 \<mapsto> [5 / 2]]
     = Inr [0 \<mapsto> 1 / 2, 1 \<mapsto> 1 / 2]"
  by (simp_all add: getScatters_def scatterOf_def example_clusters bindE_def euclideanDistanceU_def
        euclideanDistance_1d example_vectors Let_def)

lemma example_daviesBouldin:
  "calculateDaviesBouldinIndex noisy noisyLabels [0, 1] [0 \<mapsto> [1 / 2], 1 \<mapsto> [5 / 2]] = Inr (1 / 2)"
  "calculateDaviesBouldinIndex cleaned cleanedLabels [0, 1] [0 \<mapsto> [1 / 2], 1 \<mapsto> [5 / 2]] = Inr (1 / 2)"
  by (simp_all add: calculateDaviesBouldinIndex_def example_scatters maxRatio_def bindE_def
        euclideanDistanceU_def euclideanDistance_1d Let_def)


lemma example_inner_noisy:
  "silhouetteInner noisy noisyLabels 0 = (1, 1, [(1, 5, 2)])"
  "silhouetteInner noisy noisyLabels 1 = (1, 1, [(1, 3, 2)])"
  "silhouetteInner noisy noisyLabels 2 = (1, 1, [(0, 3, 2)])"
  "silhouetteInner noisy noisyLabels 3 = (1, 1, [(0, 5, 2)])"
proof -
  have n: "length noisy = 5" by (simp add: noisy_def)
  show "silhouetteInner noisy noisyLabels 0 = (1, 1, [(1, 5, 2)])"
    "silhouetteInner noisy noisyLabels 1 = (1, 1, [(1, 3, 2)])"
    "silhouetteInner noisy noisyLabels 2 = (1, 1, [(0, 3, 2)])"
    "silhouetteInner noisy noisyLabels 3 = (1, 1, [(0, 5, 2)])"
    unfolding silhouetteInner_def n idx5
    by (simp_all add: example_vectors example_labels euclideanDistance_1d addDist_def Let_def)
qed

lemma example_inner_cleaned:
  "silhouetteInner cleaned cleanedLabels 0 = (1, 1, [(1, 5, 2)])"
  "silhouetteInner cleaned cleanedLabels 1 = (1, 1, [(1, 3, 2)])"
  "silhouetteInner cleaned cleanedLabels 2 = (1, 1, [(0, 3, 2)])"
  "silhouetteInner cleaned cleanedLabels 3 = (1, 1, [(0, 5, 2)])"
proof -
  have n: "length cleaned = 4" by (simp add: cleaned_def)
  show "silhouetteInner cleaned cleanedLabels 0 = (1, 1, [(1, 5, 2)])"
    "silhouetteInner cleaned cleanedLabels 1 = (1, 1, [(1, 3, 2)])"
    "silhouetteInner cleaned cleanedLabels 2 = (1, 1, [(0, 3, 2)])"
    "silhouetteInner cleaned cleanedLabels 3 = (1, 1, [(0, 5, 2)])"
    unfolding silhouetteInner_def n idx4
    by (simp_all add: example_vectors example_labels euclideanDistance_1d addDist_def Let_def)
qed

lemma example_inner_Suc:
  "silhouetteInner noisy noisyLabels (Suc 0) = (1, 1, [(1, 3, 2)])"
  "silhouetteInner cleaned cleanedLabels (Suc 0) = (1, 1, [(1, 3, 2)])"
  using example_inner_noisy(2) example_inner_cleaned(2) by simp_all

lemma example_silhouette:
  "calculateSilhouetteScore noisy noisyLabels = 7 / 15"
  "calculateSilhouetteScore cleaned cleanedLabels = 7 / 15"
proof -
  have n: "length noisy = 5" "length cleaned = 4" by (simp_all add: noisy_def cleaned_def)
  show "calculateSilhouetteScore noisy noisyLabels = 7 / 15"
    unfolding calculateSilhouetteScore_def n idx5
    by (simp add: silhouetteStep_def example_inner_noisy example_inner_Suc example_labels
          minMeanDist_def Let_def)
  show "calculateSilhouetteScore cleaned cleanedLabels = 7 / 15"
    unfolding calculateSilhouetteScore_def n idx4
    by (simp add: silhouetteStep_def example_inner_cleaned example_inner_Suc example_labels
          minMeanDist_def Let_def)
qed

text \<open>
  C4: the vector labelled \<open>-1\<close> takes part in the global centroid of
  \<^verbatim>\<open>calculateCalinskiHarabaszIndex\<close>. With four clustered points and one noise point the
  bundle differs from the bundle of the four clustered points alone, in that index only.
\<close>

theorem metrics_noise_changes_calinskiHarabasz:
  "calculateClusteringMetrics [[0], [1], [2], [3], [9]] [0, 0, 1, 1, -1]
     = Inr \<lparr>silhouetteScore = 7 / 15, daviesBouldinIndex = 1 / 2, calinskiHarabaszIndex = 26\<rparr> \<and>
   calculateClusteringMetrics [[0], [1], [2], [3]] [0, 0, 1, 1]
     = Inr \<lparr>silhouetteScore = 7 / 15, daviesBouldinIndex = 1 / 2, calinskiHarabaszIndex = 8\<rparr>"
proof -
  have "calculateClusteringMetrics noisy noisyLabels
     = Inr \<lparr>silhouetteScore = 7 / 15, daviesBouldinIndex = 1 / 2, calinskiHarabaszIndex = 26\<rparr>"
    unfolding calculateClusteringMetrics_def Let_def example_unique example_centroids
    by (simp add: example_silhouette example_daviesBouldin example_calinskiHarabasz bindE_def)
  moreover have "calculateClusteringMetrics cleaned cleanedLabels
     = Inr \<lparr>silhouetteScore = 7 / 15, daviesBouldinIndex = 1 / 2, calinskiHarabaszIndex = 8\<rparr>"
    unfolding calculateClusteringMetrics_def Let_def example_unique example_centroids
    by (simp add: example_silhouette example_daviesBouldin example_calinskiHarabasz bindE_def)
  ultimately show ?thesis
    by (simp add: noisy_def noisyLabels_def cleaned_def cleanedLabels_def)
qed

section \<open>Self-similarity\<close>



section \<open>The cosine kernel in double precision\<close>









subsection \<open>Rounding a number that lies within half a unit of a binary64 value\<close>







subsection \<open>The kernel of \<open>[1, 1]\<close> with itself\<close>








end
